theory Spec2Isabelle
  imports
    Main
    "HOL-Library.Char_ord"
    "HOL-Library.List_Lexorder"
    "HOL-Library.Option_ord"
begin

section \<open>Local store (db.js)\<close>

text \<open>
  Every object store of \<^verbatim>\<open>DailyTrackDB\<close> is created with an in-line key
  (\<^verbatim>\<open>keyPath: 'id'\<close>, or \<^verbatim>\<open>'date'\<close> for analytics), so a store holds
  records only and the key of a record is read from the record itself. An object store
  is modelled as the list of its records in ascending key order, which is the order
  \<^verbatim>\<open>getAll\<close> returns them in. The key path is the function \<open>kp\<close>; it
  yields \<open>None\<close> for a record whose key property is missing or is no valid key,
  on which IndexedDB raises a \<^verbatim>\<open>DataError\<close>.

  The errors a request can be rejected with, and the errors the sync engine raises.
\<close>

datatype error =
    DataError
  | ConstraintError
  | Offline
  | ApiError
  | InvalidBackup

type_synonym 'r objectStore = "'r list"

text \<open>\<^verbatim>\<open>store.get(key)\<close>: the record stored under the key, if any.\<close>

definition lookup :: "('r \<Rightarrow> 'k option) \<Rightarrow> 'r objectStore \<Rightarrow> 'k \<Rightarrow> 'r option" where
  "lookup kp s k = find (\<lambda>r. kp r = Some k) s"

text \<open>\<^verbatim>\<open>store.put(data)\<close> for a record with a valid key: replace the record
  under that key, or insert the record at its place in key order.\<close>

fun store_put :: "('r \<Rightarrow> 'k::linorder option) \<Rightarrow> 'r \<Rightarrow> 'r objectStore \<Rightarrow> 'r objectStore" where
  "store_put kp r [] = [r]"
| "store_put kp r (p # ps) =
     (if kp p = kp r then r # ps
      else if kp r < kp p then r # p # ps
      else p # store_put kp r ps)"

text \<open>\<^verbatim>\<open>store.delete(key)\<close>: remove the record under the key, a no-op if absent.\<close>

definition store_delete :: "('r \<Rightarrow> 'k option) \<Rightarrow> 'k \<Rightarrow> 'r objectStore \<Rightarrow> 'r objectStore" where
  "store_delete kp k s = filter (\<lambda>r. kp r \<noteq> Some k) s"

text \<open>
  The generic CRUD methods of \<^verbatim>\<open>DailyTrackDB\<close>. A rejected request is
  \<open>Inl\<close> of its error; the store is then unchanged.

  \<^verbatim>\<open>
  async add(storeName, data)    { ... store.add(data) ... }
  async get(storeName, key)     { ... store.get(key) ... }
  async getAll(storeName)       { ... store.getAll() ... }
  async update(storeName, data) { ... store.put(data) ... }
  async delete(storeName, key)  { ... store.delete(key) ... }
  async clearStore(storeName)   { ... store.clear() ... }
  \<close>
\<close>

definition db_add :: "('r \<Rightarrow> 'k::linorder option) \<Rightarrow> 'r objectStore \<Rightarrow> 'r \<Rightarrow> error + 'r objectStore" where
  "db_add kp s r =
     (case kp r of
        None \<Rightarrow> Inl DataError
      | Some k \<Rightarrow>
          (case lookup kp s k of
             Some _ \<Rightarrow> Inl ConstraintError
           | None \<Rightarrow> Inr (store_put kp r s)))"

definition db_get :: "('r \<Rightarrow> 'k option) \<Rightarrow> 'r objectStore \<Rightarrow> 'k option \<Rightarrow> error + 'r option" where
  "db_get kp s key =
     (case key of
        None \<Rightarrow> Inl DataError
      | Some k \<Rightarrow> Inr (lookup kp s k))"

definition db_getAll :: "'r objectStore \<Rightarrow> 'r list" where
  "db_getAll s = s"

definition db_update :: "('r \<Rightarrow> 'k::linorder option) \<Rightarrow> 'r objectStore \<Rightarrow> 'r \<Rightarrow> error + 'r objectStore" where
  "db_update kp s r =
     (case kp r of
        None \<Rightarrow> Inl DataError
      | Some k \<Rightarrow> Inr (store_put kp r s))"

definition db_delete :: "('r \<Rightarrow> 'k option) \<Rightarrow> 'r objectStore \<Rightarrow> 'k option \<Rightarrow> error + 'r objectStore" where
  "db_delete kp s key =
     (case key of
        None \<Rightarrow> Inl DataError
      | Some k \<Rightarrow> Inr (store_delete kp k s))"

definition clearStore :: "'r objectStore \<Rightarrow> 'r objectStore" where
  "clearStore s = []"

text \<open>
  The state a store is in after any sequence of requests: every record has a key and
  the keys are strictly ascending, so no two records share a key.
\<close>

definition wf_store :: "('r \<Rightarrow> 'k::linorder option) \<Rightarrow> 'r objectStore \<Rightarrow> bool" where
  "wf_store kp s \<longleftrightarrow> None \<notin> set (map kp s) \<and> sorted_wrt (<) (map kp s)"


text \<open>
  The six entity stores that backup covers, addressed by name as the methods of
  \<^verbatim>\<open>DailyTrackDB\<close> address them. The stores \<^verbatim>\<open>activityLog\<close> and
  \<^verbatim>\<open>syncQueue\<close> are no part of a backup; the queue is modelled with the sync
  engine.
\<close>

record 'r database =
  tasks :: "'r objectStore"
  expenses :: "'r objectStore"
  habits :: "'r objectStore"
  journal :: "'r objectStore"
  settings :: "'r objectStore"
  analytics :: "'r objectStore"

definition getStore :: "string \<Rightarrow> 'r database \<Rightarrow> 'r objectStore" where
  "getStore name d =
     (if name = ''tasks'' then tasks d
      else if name = ''expenses'' then expenses d
      else if name = ''habits'' then habits d
      else if name = ''journal'' then journal d
      else if name = ''settings'' then settings d
      else if name = ''analytics'' then analytics d
      else [])"

definition setStore :: "string \<Rightarrow> 'r objectStore \<Rightarrow> 'r database \<Rightarrow> 'r database" where
  "setStore name s d =
     (if name = ''tasks'' then d\<lparr>tasks := s\<rparr>
      else if name = ''expenses'' then d\<lparr>expenses := s\<rparr>
      else if name = ''habits'' then d\<lparr>habits := s\<rparr>
      else if name = ''journal'' then d\<lparr>journal := s\<rparr>
      else if name = ''settings'' then d\<lparr>settings := s\<rparr>
      else if name = ''analytics'' then d\<lparr>analytics := s\<rparr>
      else d)"


section \<open>Sync queue (db.js)\<close>

text \<open>
  An entry of the \<^verbatim>\<open>syncQueue\<close> store, as \<^verbatim>\<open>addToSyncQueue\<close> creates it:
  \<^verbatim>\<open>{ type, data, status: 'pending', createdAt, attempts: 0 }\<close>, with the
  auto-incremented key \<^verbatim>\<open>id\<close>; \<^verbatim>\<open>completedAt\<close> is absent until
  \<^verbatim>\<open>markSyncItemComplete\<close> sets it. Timestamps are the strings
  \<^verbatim>\<open>new Date().toISOString()\<close> returns; the clock is a parameter.
\<close>

datatype status = Pending | Completed | Failed

record 'd syncItem =
  item_id :: nat
  item_type :: string
  item_data :: 'd
  status :: status
  createdAt :: string
  attempts :: nat
  completedAt :: "string option"

definition queue_key :: "'d syncItem \<Rightarrow> nat option" where
  "queue_key item = Some (item_id item)"

text \<open>
  \<^verbatim>\<open>
  async getPendingSyncItems(type = null) {
    const items = await this.getAll('syncQueue', 'by-status', 'pending');
    return type ? items.filter(item => item.type === type) : items;
  }
  \<close>
  The index \<^verbatim>\<open>by-status\<close> restricted to the key \<^verbatim>\<open>'pending'\<close> yields the
  entries whose status is pending, in primary-key order.
\<close>

definition getPendingSyncItems :: "'d syncItem objectStore \<Rightarrow> string option \<Rightarrow> 'd syncItem list" where
  "getPendingSyncItems q type =
     (let items = filter (\<lambda>item. status item = Pending) (db_getAll q)
      in case type of
           None \<Rightarrow> items
         | Some t \<Rightarrow> filter (\<lambda>item. item_type item = t) items)"

text \<open>
  \<^verbatim>\<open>
  async markSyncItemComplete(id) {
    const item = await this.get('syncQueue', id);
    if (item) {
      item.status = 'completed';
      item.completedAt = new Date().toISOString();
      await this.update('syncQueue', item);
    }
  }
  \<close>
  \<open>now\<close> is the clock reading.
\<close>

definition markSyncItemComplete :: "string \<Rightarrow> 'd syncItem objectStore \<Rightarrow> nat \<Rightarrow> error + 'd syncItem objectStore" where
  "markSyncItemComplete now q ident =
     (case db_get queue_key q (Some ident) of
        Inl e \<Rightarrow> Inl e
      | Inr None \<Rightarrow> Inr q
      | Inr (Some item) \<Rightarrow>
          db_update queue_key q (item\<lparr>status := Completed, completedAt := Some now\<rparr>))"


section \<open>Records and the remote transport (sync.js)\<close>

text \<open>
  A record of an entity store, as the sync engine reads it: the key \<^verbatim>\<open>id\<close>
  (\<open>None\<close> when the property is missing or is no valid key), the time value of
  \<^verbatim>\<open>new Date(record.updatedAt)\<close> in milliseconds (\<open>None\<close> when the date is
  invalid, whose time value is NaN), the flag \<^verbatim>\<open>synced\<close>, and the remaining
  properties, which the engine never reads.
\<close>

record entity =
  rid :: "string option"
  updatedAt :: "int option"
  synced :: bool
  props :: "(string \<times> string) list"

text \<open>
  \<^verbatim>\<open>new Date(a) > new Date(b)\<close> compares the two time values; a comparison with
  NaN is false.
\<close>

definition date_gt :: "int option \<Rightarrow> int option \<Rightarrow> bool" where
  "date_gt a b = (case (a, b) of (Some x, Some y) \<Rightarrow> y < x | _ \<Rightarrow> False)"

text \<open>
  The answer to \<^verbatim>\<open>GET /api/sync\<close>; \<^verbatim>\<open>updates.tasks\<close> and its siblings may
  be missing.
\<close>

record updates =
  remote_tasks :: "entity list option"
  remote_expenses :: "entity list option"
  remote_journal :: "entity list option"

datatype request =
    GetSync nat
  | Post string entity
  | Put string entity

datatype response = Ack | Changes updates

text \<open>
  The network during one call or cycle: \<^verbatim>\<open>navigator.onLine\<close>, and what
  \<^verbatim>\<open>fetch\<close> gives for a request, \<open>None\<close> when it rejects or the status is not ok.

  \<^verbatim>\<open>
  async apiRequest(method, endpoint, data = null) {
    if (!navigator.onLine) { throw new Error('Offline - queued for later sync'); }
    ...
    try {
      const response = await fetch(`https://api.DailyTrack.app${endpoint}`, options);
      if (!response.ok) { throw new Error(`API error: ${response.status}`); }
      return await response.json();
    } catch (error) { console.error('API request failed:', error); throw error; }
  }
  \<close>
\<close>

record net =
  onLine :: bool
  fetch :: "request \<Rightarrow> response option"

definition apiRequest :: "net \<Rightarrow> request \<Rightarrow> error + response" where
  "apiRequest n req =
     (if \<not> onLine n then Inl Offline
      else case fetch n req of
             None \<Rightarrow> Inl ApiError
           | Some r \<Rightarrow> Inr r)"

definition syncTask :: "net \<Rightarrow> entity \<Rightarrow> error + response" where
  "syncTask n r = apiRequest n (Post ''/api/tasks'' r)"

definition syncExpense :: "net \<Rightarrow> entity \<Rightarrow> error + response" where
  "syncExpense n r = apiRequest n (Post ''/api/expenses'' r)"

definition syncHabit :: "net \<Rightarrow> entity \<Rightarrow> error + response" where
  "syncHabit n r = apiRequest n (Post ''/api/habits'' r)"

definition syncJournal :: "net \<Rightarrow> entity \<Rightarrow> error + response" where
  "syncJournal n r = apiRequest n (Post ''/api/journal'' r)"

definition syncSettings :: "net \<Rightarrow> entity \<Rightarrow> error + response" where
  "syncSettings n r = apiRequest n (Put ''/api/settings'' r)"

text \<open>\<^verbatim>\<open>registerSyncHandlers\<close>: the handler of each queue entry type.\<close>

definition syncHandlers :: "string \<Rightarrow> (net \<Rightarrow> entity \<Rightarrow> error + response) option" where
  "syncHandlers t =
     (if t = ''task'' then Some syncTask
      else if t = ''expense'' then Some syncExpense
      else if t = ''habit'' then Some syncHabit
      else if t = ''journal'' then Some syncJournal
      else if t = ''settings'' then Some syncSettings
      else None)"


section \<open>Sync engine (sync.js)\<close>

definition maxRetries :: nat where
  "maxRetries = 3"

text \<open>
  One iteration of the loop of \<^verbatim>\<open>syncPendingItems\<close>, on the entry \<open>item\<close> that
  \<^verbatim>\<open>getPendingSyncItems\<close> returned:
  \<^verbatim>\<open>
      try {
        const handler = this.syncHandlers.get(item.type);
        if (handler) {
          await handler(item.data);
          await db.markSyncItemComplete(item.id);
        }
      } catch (error) {
        console.error(`Failed to sync item ${item.id}:`, error);
        item.attempts = (item.attempts || 0) + 1;

        if (item.attempts >= this.maxRetries) {
          item.status = 'failed';
          await db.update('syncQueue', item);
        }
      }
  \<close>
  The \<^verbatim>\<open>catch\<close> block changes the object \<open>item\<close> in memory and writes it to the
  store only under the inner \<^verbatim>\<open>if\<close>. An error of that \<^verbatim>\<open>db.update\<close> leaves
  the loop.
\<close>

definition onPushFailure :: "entity syncItem objectStore \<Rightarrow> entity syncItem \<Rightarrow> error + entity syncItem objectStore" where
  "onPushFailure q item =
     (let item1 = item\<lparr>attempts := attempts item + 1\<rparr>
      in if attempts item1 \<ge> maxRetries
         then db_update queue_key q (item1\<lparr>status := Failed\<rparr>)
         else Inr q)"

definition syncPendingItem :: "net \<Rightarrow> string \<Rightarrow> entity syncItem objectStore \<Rightarrow> entity syncItem \<Rightarrow> error + entity syncItem objectStore" where
  "syncPendingItem n now q item =
     (case syncHandlers (item_type item) of
        None \<Rightarrow> Inr q
      | Some handler \<Rightarrow>
          (case handler n (item_data item) of
             Inl e \<Rightarrow> onPushFailure q item
           | Inr _ \<Rightarrow>
               (case markSyncItemComplete now q (item_id item) of
                  Inl e \<Rightarrow> onPushFailure q item
                | Inr q' \<Rightarrow> Inr q')))"

text \<open>The loop: the store as it is when the loop ends, and the error that ended it, if
  one did.\<close>

fun syncPendingLoop :: "net \<Rightarrow> string \<Rightarrow> entity syncItem objectStore \<Rightarrow> entity syncItem list \<Rightarrow> entity syncItem objectStore \<times> error option" where
  "syncPendingLoop n now q [] = (q, None)"
| "syncPendingLoop n now q (item # items) =
     (case syncPendingItem n now q item of
        Inl e \<Rightarrow> (q, Some e)
      | Inr q' \<Rightarrow> syncPendingLoop n now q' items)"

text \<open>
  \<^verbatim>\<open>
  async syncPendingItems() {
    const pendingItems = await db.getPendingSyncItems();
    for (const item of pendingItems) { ... }
  }
  \<close>
\<close>

definition syncPendingItems :: "net \<Rightarrow> string \<Rightarrow> entity syncItem objectStore \<Rightarrow> entity syncItem objectStore \<times> error option" where
  "syncPendingItems n now q = syncPendingLoop n now q (getPendingSyncItems q None)"

text \<open>
  \<^verbatim>\<open>
  async applyRemoteUpdates(storeName, updates) {
    for (const update of updates) {
      const existing = await db.get(storeName, update.id);
      if (existing) {
        // Conflict resolution: use latest timestamp
        if (new Date(update.updatedAt) > new Date(existing.updatedAt)) {
          await db.update(storeName, update);
        }
      } else {
        await db.add(storeName, update);
      }
    }
  }
  \<close>
  A request that is rejected throws out of the loop; what was written before stays
  written, so the result is the store together with the error, if any.
\<close>

fun applyRemoteUpdates :: "entity objectStore \<Rightarrow> entity list \<Rightarrow> entity objectStore \<times> error option" where
  "applyRemoteUpdates s [] = (s, None)"
| "applyRemoteUpdates s (update # rest) =
     (case db_get rid s (rid update) of
        Inl e \<Rightarrow> (s, Some e)
      | Inr (Some existing) \<Rightarrow>
          (if date_gt (updatedAt update) (updatedAt existing)
           then (case db_update rid s update of
                   Inl e \<Rightarrow> (s, Some e)
                 | Inr s' \<Rightarrow> applyRemoteUpdates s' rest)
           else applyRemoteUpdates s rest)
      | Inr None \<Rightarrow>
          (case db_add rid s update of
             Inl e \<Rightarrow> (s, Some e)
           | Inr s' \<Rightarrow> applyRemoteUpdates s' rest))"

text \<open>
  The state of the engine: the database, the queue, the
  checkpoint \<^verbatim>\<open>localStorage['lastSync']\<close> (\<open>None\<close> until first set), the flag
  \<^verbatim>\<open>isSyncing\<close> and the signals emitted so far.
\<close>

datatype signal = SyncComplete | SyncError error

record engine =
  stores :: "entity database"
  syncQueue :: "entity syncItem objectStore"
  lastSync :: "nat option"
  isSyncing :: bool
  emitted :: "signal list"

text \<open>
  One of the three loops of \<^verbatim>\<open>syncLocalChanges\<close>, over the unsynced records read
  at its start:
  \<^verbatim>\<open>
    for (const task of unsyncedTasks) {
      await this.syncTask(task);
      task.synced = true;
      await db.update('tasks', task);
    }
  \<close>
  Nothing catches here: a failed push ends the loop and the method.
\<close>

fun pushUnsynced :: "(net \<Rightarrow> entity \<Rightarrow> error + response) \<Rightarrow> net \<Rightarrow> entity objectStore \<Rightarrow> entity list \<Rightarrow> entity objectStore \<times> error option" where
  "pushUnsynced push n s [] = (s, None)"
| "pushUnsynced push n s (r # rs) =
     (case push n r of
        Inl e \<Rightarrow> (s, Some e)
      | Inr _ \<Rightarrow>
          (case db_update rid s (r\<lparr>synced := True\<rparr>) of
             Inl e \<Rightarrow> (s, Some e)
           | Inr s' \<Rightarrow> pushUnsynced push n s' rs))"

definition syncStore :: "(net \<Rightarrow> entity \<Rightarrow> error + response) \<Rightarrow> net \<Rightarrow> entity objectStore \<Rightarrow> entity objectStore \<times> error option" where
  "syncStore push n s = pushUnsynced push n s (filter (\<lambda>r. \<not> synced r) (db_getAll s))"

definition syncLocalChanges :: "net \<Rightarrow> entity database \<Rightarrow> entity database \<times> error option" where
  "syncLocalChanges n d =
     (case syncStore syncTask n (tasks d) of
        (t, Some e) \<Rightarrow> (d\<lparr>tasks := t\<rparr>, Some e)
      | (t, None) \<Rightarrow>
          (case syncStore syncExpense n (expenses d) of
             (x, Some e) \<Rightarrow> (d\<lparr>tasks := t, expenses := x\<rparr>, Some e)
           | (x, None) \<Rightarrow>
               (case syncStore syncJournal n (journal d) of
                  (j, e) \<Rightarrow> (d\<lparr>tasks := t, expenses := x, journal := j\<rparr>, e))))"

text \<open>
  \<^verbatim>\<open>
  async fetchRemoteChanges() {
    const lastSync = localStorage.getItem('lastSync') || 0;
    try {
      const updates = await this.apiRequest('GET', `/api/sync?since=${lastSync}`);
      if (updates.tasks && updates.tasks.length > 0) {
        await this.applyRemoteUpdates('tasks', updates.tasks);
      }
      if (updates.expenses && updates.expenses.length > 0) {
        await this.applyRemoteUpdates('expenses', updates.expenses);
      }
      if (updates.journal && updates.journal.length > 0) {
        await this.applyRemoteUpdates('journal', updates.journal);
      }
      localStorage.setItem('lastSync', Date.now());
    } catch (error) {
      console.error('Failed to fetch remote changes:', error);
    }
  }
  \<close>
  \<open>nowMs\<close> is \<^verbatim>\<open>Date.now()\<close>. The method returns nothing and throws nothing; the
  second component of the result is the error its \<^verbatim>\<open>catch\<close> block logged, if any.
\<close>

definition applyBatch :: "entity objectStore \<Rightarrow> entity list option \<Rightarrow> entity objectStore \<times> error option" where
  "applyBatch s batch =
     (case batch of
        None \<Rightarrow> (s, None)
      | Some us \<Rightarrow> if length us > 0 then applyRemoteUpdates s us else (s, None))"

text \<open>The JSON of the answer read as \<^verbatim>\<open>updates\<close>: an answer that is no change set
  has none of the three properties.\<close>

definition updates_of :: "response \<Rightarrow> updates" where
  "updates_of resp =
     (case resp of
        Changes u \<Rightarrow> u
      | Ack \<Rightarrow> \<lparr>remote_tasks = None, remote_expenses = None, remote_journal = None\<rparr>)"

definition since :: "engine \<Rightarrow> nat" where
  "since st = (case lastSync st of None \<Rightarrow> 0 | Some t \<Rightarrow> t)"

definition fetchRemoteChanges :: "net \<Rightarrow> nat \<Rightarrow> engine \<Rightarrow> engine \<times> error option" where
  "fetchRemoteChanges n nowMs st =
     (case apiRequest n (GetSync (since st)) of
        Inl e \<Rightarrow> (st, Some e)
      | Inr resp \<Rightarrow>
          (case applyBatch (tasks (stores st)) (remote_tasks (updates_of resp)) of
             (t, Some e) \<Rightarrow> (st\<lparr>stores := (stores st)\<lparr>tasks := t\<rparr>\<rparr>, Some e)
           | (t, None) \<Rightarrow>
               (case applyBatch (expenses (stores st)) (remote_expenses (updates_of resp)) of
                  (x, Some e) \<Rightarrow> (st\<lparr>stores := (stores st)\<lparr>tasks := t, expenses := x\<rparr>\<rparr>, Some e)
                | (x, None) \<Rightarrow>
                    (case applyBatch (journal (stores st)) (remote_journal (updates_of resp)) of
                       (j, Some e) \<Rightarrow>
                         (st\<lparr>stores := (stores st)\<lparr>tasks := t, expenses := x, journal := j\<rparr>\<rparr>, Some e)
                     | (j, None) \<Rightarrow>
                         (st\<lparr>stores := (stores st)\<lparr>tasks := t, expenses := x, journal := j\<rparr>,
                             lastSync := Some nowMs\<rparr>,
                          None)))))"

text \<open>
  \<^verbatim>\<open>
  async syncAll() {
    if (this.isSyncing) { console.log('Sync already in progress'); return; }
    this.isSyncing = true;
    try {
      await this.syncPendingItems();
      await this.syncLocalChanges();
      await this.fetchRemoteChanges();
      this.emit('syncComplete', { success: true });
    } catch (error) {
      console.error('Sync failed:', error);
      this.emit('syncError', { error });
    } finally {
      this.isSyncing = false;
    }
  }
  \<close>
  \<^verbatim>\<open>emit\<close> calls the listeners and catches what they throw; here it appends the
  signal to the trace. \<open>syncCycle\<close> is the \<^verbatim>\<open>try\<close> block up to the first
  \<^verbatim>\<open>emit\<close>, with the error it throws, if any.
\<close>

definition emit :: "signal \<Rightarrow> engine \<Rightarrow> engine" where
  "emit sig st = st\<lparr>emitted := emitted st @ [sig]\<rparr>"

definition syncCycle :: "net \<Rightarrow> string \<Rightarrow> nat \<Rightarrow> engine \<Rightarrow> engine \<times> error option" where
  "syncCycle n now nowMs st =
     (case syncPendingItems n now (syncQueue st) of
        (q, Some e) \<Rightarrow> (st\<lparr>syncQueue := q\<rparr>, Some e)
      | (q, None) \<Rightarrow>
          (case syncLocalChanges n (stores st) of
             (d, Some e) \<Rightarrow> (st\<lparr>syncQueue := q, stores := d\<rparr>, Some e)
           | (d, None) \<Rightarrow>
               (fst (fetchRemoteChanges n nowMs (st\<lparr>syncQueue := q, stores := d\<rparr>)), None)))"

definition syncAll :: "net \<Rightarrow> string \<Rightarrow> nat \<Rightarrow> engine \<Rightarrow> engine" where
  "syncAll n now nowMs st =
     (if isSyncing st then st
      else
        (case syncCycle n now nowMs (st\<lparr>isSyncing := True\<rparr>) of
           (st', None) \<Rightarrow> (emit SyncComplete st')\<lparr>isSyncing := False\<rparr>
         | (st', Some e) \<Rightarrow> (emit (SyncError e) st')\<lparr>isSyncing := False\<rparr>))"


section \<open>Habit streaks (db.js)\<close>

text \<open>
  A record of the \<^verbatim>\<open>habits\<close> store with the properties
  \<^verbatim>\<open>logHabitCompletion\<close> reads and writes. A calendar date, the string
  \<^verbatim>\<open>YYYY-MM-DD\<close>, is the number of its day; \<^verbatim>\<open>lastCompleted\<close> is
  \<open>None\<close> while the property is missing. On such a date
  \<^verbatim>\<open>new Date(d).toISOString().split('T')[0]\<close> is the date itself.

  The clock gives the two dates the method computes from \<^verbatim>\<open>new Date()\<close>: the
  date of today, and the date of the instant one calendar day before now
  (\<^verbatim>\<open>yesterday.setDate(yesterday.getDate() - 1)\<close>).
\<close>

record habit = entity +
  currentStreak :: int
  longestStreak :: int
  lastCompleted :: "int option"
  completionHistory :: "int list"

record clock =
  todayStr :: int
  yesterdayStr :: int

text \<open>What the method returns: \<^verbatim>\<open>null\<close>, the habit as stored, or the key that
  \<^verbatim>\<open>update\<close> resolves to.\<close>

datatype logged = NotFound | AlreadyLogged habit | Stored "string option"

text \<open>
  \<^verbatim>\<open>
  async logHabitCompletion(habitId, date = null) {
    const habit = await this.get('habits', habitId);
    if (!habit) return null;

    const today = date || new Date().toISOString().split('T')[0];
    const lastCompletion = habit.lastCompleted
      ? new Date(habit.lastCompleted).toISOString().split('T')[0]
      : null;

    // Check if already completed today
    if (lastCompletion === today) {
      return habit;
    }

    // Check if streak should continue
    if (lastCompletion) {
      const yesterday = new Date();
      yesterday.setDate(yesterday.getDate() - 1);
      const yesterdayStr = yesterday.toISOString().split('T')[0];

      if (lastCompletion === yesterdayStr) {
        habit.currentStreak++;
        habit.longestStreak = Math.max(habit.longestStreak, habit.currentStreak);
      } else {
        habit.currentStreak = 1;
      }
    } else {
      habit.currentStreak = 1;
      habit.longestStreak = 1;
    }

    habit.lastCompleted = today;
    habit.completionHistory = habit.completionHistory || [];
    habit.completionHistory.push(today);

    return await this.update('habits', habit);
  }
  \<close>
\<close>

definition logHabitCompletion :: "clock \<Rightarrow> habit objectStore \<Rightarrow> string \<Rightarrow> int option \<Rightarrow> error + (logged \<times> habit objectStore)" where
  "logHabitCompletion c s habitId date =
     (case db_get rid s (Some habitId) of
        Inl e \<Rightarrow> Inl e
      | Inr None \<Rightarrow> Inr (NotFound, s)
      | Inr (Some habit) \<Rightarrow>
          (let today = (case date of None \<Rightarrow> todayStr c | Some d \<Rightarrow> d);
               lastCompletion = lastCompleted habit
           in if lastCompletion = Some today then Inr (AlreadyLogged habit, s)
              else
                (let habit1 =
                       (case lastCompletion of
                          Some l \<Rightarrow>
                            if l = yesterdayStr c
                            then habit\<lparr>currentStreak := currentStreak habit + 1,
                                       longestStreak := max (longestStreak habit) (currentStreak habit + 1)\<rparr>
                            else habit\<lparr>currentStreak := 1\<rparr>
                        | None \<Rightarrow> habit\<lparr>currentStreak := 1, longestStreak := 1\<rparr>);
                     habit2 = habit1\<lparr>lastCompleted := Some today,
                                      completionHistory := completionHistory habit1 @ [today]\<rparr>
                 in case db_update rid s habit2 of
                      Inl e \<Rightarrow> Inl e
                    | Inr s' \<Rightarrow> Inr (Stored (rid habit2), s'))))"


section \<open>Backup and restore (db.js, app.js, sync.js)\<close>

text \<open>
  A backup payload, \<^verbatim>\<open>{ data, exportedAt, version, app }\<close>. A property that is
  missing is \<open>None\<close>; \<^verbatim>\<open>data\<close> is read as \<^verbatim>\<open>Object.entries\<close> lists it,
  store name and records. The records are of any one type \<open>'r\<close>: export and import
  read nothing of a record but its key, through the key path \<open>kp\<close> of its store.
\<close>

record 'r backup =
  data :: "(string \<times> 'r list) list option"
  exportedAt :: string
  version :: "string option"
  app :: "string option"

text \<open>The array \<^verbatim>\<open>stores\<close> of \<^verbatim>\<open>exportData\<close> and \<^verbatim>\<open>importData\<close>.\<close>

definition backupStores :: "string list" where
  "backupStores = [''tasks'', ''expenses'', ''habits'', ''journal'', ''settings'', ''analytics'']"

text \<open>A string property in a condition: missing and the empty string are falsy.\<close>

definition truthy :: "string option \<Rightarrow> bool" where
  "truthy v = (case v of None \<Rightarrow> False | Some x \<Rightarrow> x \<noteq> [])"

text \<open>
  \<^verbatim>\<open>
  async exportData() {
    const stores = ['tasks', 'expenses', 'habits', 'journal', 'settings', 'analytics'];
    const data = {};
    for (const store of stores) { data[store] = await this.getAll(store); }
    return { data, exportedAt: new Date().toISOString(), version: '2.0', app: 'DailyTrack' };
  }
  \<close>
\<close>

definition exportData :: "string \<Rightarrow> 'r database \<Rightarrow> 'r backup" where
  "exportData now d =
     \<lparr>data = Some (map (\<lambda>store. (store, db_getAll (getStore store d))) backupStores),
      exportedAt = now,
      version = Some ''2.0'',
      app = Some ''DailyTrack''\<rparr>"

text \<open>
  \<^verbatim>\<open>
  async importData(backupData) {
    // Validate backup data
    if (!backupData.data || !backupData.version) {
      throw new Error('Invalid backup data');
    }
    // Clear existing data
    const stores = ['tasks', 'expenses', 'habits', 'journal', 'settings', 'analytics'];
    for (const store of stores) { await this.clearStore(store); }
    // Import data
    for (const [storeName, items] of Object.entries(backupData.data)) {
      if (stores.includes(storeName)) {
        for (const item of items) { await this.add(storeName, item); }
      }
    }
    return true;
  }
  \<close>
  The result is the database as the method leaves it and the error it throws, if any;
  \<open>None\<close> is the return of \<^verbatim>\<open>true\<close>.
\<close>

fun addItems :: "('r \<Rightarrow> 'k::linorder option) \<Rightarrow> 'r objectStore \<Rightarrow> 'r list \<Rightarrow> 'r objectStore \<times> error option" where
  "addItems kp s [] = (s, None)"
| "addItems kp s (item # items) =
     (case db_add kp s item of
        Inl e \<Rightarrow> (s, Some e)
      | Inr s' \<Rightarrow> addItems kp s' items)"

fun importEntries :: "(string \<Rightarrow> 'r \<Rightarrow> 'k::linorder option) \<Rightarrow> 'r database \<Rightarrow> (string \<times> 'r list) list \<Rightarrow> 'r database \<times> error option" where
  "importEntries kp d [] = (d, None)"
| "importEntries kp d ((storeName, items) # rest) =
     (if storeName \<in> set backupStores
      then (case addItems (kp storeName) (getStore storeName d) items of
              (s, Some e) \<Rightarrow> (setStore storeName s d, Some e)
            | (s, None) \<Rightarrow> importEntries kp (setStore storeName s d) rest)
      else importEntries kp d rest)"

definition clearStores :: "'r database \<Rightarrow> 'r database" where
  "clearStores d = fold (\<lambda>store d'. setStore store (clearStore (getStore store d')) d') backupStores d"

definition importData :: "(string \<Rightarrow> 'r \<Rightarrow> 'k::linorder option) \<Rightarrow> 'r database \<Rightarrow> 'r backup \<Rightarrow> 'r database \<times> error option" where
  "importData kp d backupData =
     (case data backupData of
        None \<Rightarrow> (d, Some InvalidBackup)
      | Some entries \<Rightarrow>
          if \<not> truthy (version backupData) then (d, Some InvalidBackup)
          else importEntries kp (clearStores d) entries)"

text \<open>
  app.js:
  \<^verbatim>\<open>
  validateBackup(backup) {
    return backup && backup.data && backup.version && backup.app === 'DailyTrack';
  }

  async restoreData(file) {
    ...
      const backup = JSON.parse(text);
      if (!this.validateBackup(backup)) { throw new Error('Invalid backup file'); }
      if (confirm('This will replace all current data. Are you sure?')) {
        await db.importData(backup);
        ...
      }
    ...
  }
  \<close>
  \<open>confirmed\<close> is the answer to the dialog.
\<close>

definition validateBackup :: "'r backup \<Rightarrow> bool" where
  "validateBackup b \<longleftrightarrow> data b \<noteq> None \<and> truthy (version b) \<and> app b = Some ''DailyTrack''"

definition restoreData :: "(string \<Rightarrow> 'r \<Rightarrow> 'k::linorder option) \<Rightarrow> 'r database \<Rightarrow> 'r backup \<Rightarrow> bool \<Rightarrow> 'r database \<times> error option" where
  "restoreData kp d b confirmed =
     (if \<not> validateBackup b then (d, Some InvalidBackup)
      else if confirmed then importData kp d b
      else (d, None))"

text \<open>
  sync.js:
  \<^verbatim>\<open>
  async restoreFromCloud() {
    try {
      const backupData = await this.apiRequest('GET', '/api/backup/latest');
      await db.importData(backupData);
      console.log('Restore from cloud successful');
      return true;
    } catch (error) {
      console.error('Restore from cloud failed:', error);
      return false;
    }
  }
  \<close>
  \<open>fetched\<close> is what the request gave: an error, or the payload.
\<close>

definition restoreFromCloud :: "(string \<Rightarrow> 'r \<Rightarrow> 'k::linorder option) \<Rightarrow> 'r database \<Rightarrow> error + 'r backup \<Rightarrow> 'r database \<times> bool" where
  "restoreFromCloud kp d fetched =
     (case fetched of
        Inl e \<Rightarrow> (d, False)
      | Inr backupData \<Rightarrow>
          (case importData kp d backupData of
             (d', None) \<Rightarrow> (d', True)
           | (d', Some e) \<Rightarrow> (d', False)))"


section \<open>Notions of the statements and sample data\<close>

text \<open>What \<^verbatim>\<open>markSyncItemComplete\<close> writes into an entry.\<close>

definition complete_entry :: "string \<Rightarrow> 'd syncItem \<Rightarrow> 'd syncItem" where
  "complete_entry now item = item\<lparr>status := Completed, completedAt := Some now\<rparr>"

text \<open>
  An incoming record is settled in a store when the store holds a record under its id
  that the incoming one is not newer than: \<^verbatim>\<open>applyRemoteUpdates\<close> then skips it.
\<close>

definition settled :: "entity objectStore \<Rightarrow> entity \<Rightarrow> bool" where
  "settled s u =
     (case rid u of
        None \<Rightarrow> False
      | Some k \<Rightarrow>
          (case lookup rid s k of
             None \<Rightarrow> False
           | Some e \<Rightarrow> \<not> date_gt (updatedAt u) (updatedAt e)))"

text \<open>
  The records of the scenario of the specification: task \<^verbatim>\<open>t1\<close> with title A,
  last updated 2024-01-01T00:00:00Z, and its remote version with title B, updated a day
  later; another task, an unsynced task, and a remote expense that has no id.
\<close>

definition task_A :: entity where
  "task_A = \<lparr>rid = Some ''t1'', updatedAt = Some 1704067200000, synced = True,
             props = [(''title'', ''A'')]\<rparr>"

definition task_B :: entity where
  "task_B = \<lparr>rid = Some ''t1'', updatedAt = Some 1704153600000, synced = True,
             props = [(''title'', ''B'')]\<rparr>"

definition task_C :: entity where
  "task_C = \<lparr>rid = Some ''t2'', updatedAt = Some 1704153600000, synced = True,
             props = [(''title'', ''C'')]\<rparr>"

definition expense_no_id :: entity where
  "expense_no_id = \<lparr>rid = None, updatedAt = Some 1704153600000, synced = True,
                    props = [(''amount'', ''12'')]\<rparr>"

definition task_U :: entity where
  "task_U = \<lparr>rid = Some ''t3'', updatedAt = Some 1704067200000, synced = False,
             props = [(''title'', ''U'')]\<rparr>"

text \<open>Two engine states at rest, differing in whether a task waits to be pushed.\<close>

definition engine_idle :: engine where
  "engine_idle =
     \<lparr>stores = \<lparr>tasks = [task_A], expenses = [], habits = [], journal = [], settings = [],
                 analytics = []\<rparr>,
      syncQueue = [], lastSync = Some 1704070000000, isSyncing = False, emitted = []\<rparr>"

definition engine_unsynced :: engine where
  "engine_unsynced =
     \<lparr>stores = \<lparr>tasks = [task_U], expenses = [], habits = [], journal = [], settings = [],
                 analytics = []\<rparr>,
      syncQueue = [], lastSync = None, isSyncing = False, emitted = []\<rparr>"

text \<open>
  Three networks: one that is offline; one whose change set has a good batch of tasks and
  a batch of expenses with a record that cannot be stored; one whose change set applies.
\<close>

definition net_down :: net where
  "net_down = \<lparr>onLine = False, fetch = (\<lambda>req. None)\<rparr>"

definition net_bad_expense :: net where
  "net_bad_expense =
     \<lparr>onLine = True,
      fetch = (\<lambda>req. Some (Changes \<lparr>remote_tasks = Some [task_B],
                                      remote_expenses = Some [expense_no_id],
                                      remote_journal = None\<rparr>))\<rparr>"

definition net_good :: net where
  "net_good =
     \<lparr>onLine = True,
      fetch = (\<lambda>req. Some (Changes \<lparr>remote_tasks = Some [task_B],
                                      remote_expenses = None,
                                      remote_journal = Some []\<rparr>))\<rparr>"

text \<open>Sync queues: two entries; one pending entry for task \<^verbatim>\<open>t1\<close>.\<close>

definition queue_example :: "unit syncItem objectStore" where
  "queue_example =
     [\<lparr>item_id = 1, item_type = ''task'', item_data = (), status = Pending,
        createdAt = ''2024-01-01T08:00:00.000Z'', attempts = 0, completedAt = None\<rparr>,
      \<lparr>item_id = 2, item_type = ''expense'', item_data = (), status = Pending,
        createdAt = ''2024-01-01T09:00:00.000Z'', attempts = 1, completedAt = None\<rparr>]"

definition queue_pending :: "entity syncItem objectStore" where
  "queue_pending =
     [\<lparr>item_id = 1, item_type = ''task'', item_data = task_A, status = Pending,
        createdAt = ''2024-01-01T08:00:00.000Z'', attempts = 0, completedAt = None\<rparr>]"

text \<open>A habit never completed, and the clock of 2024-01-03 (day 19725 of the epoch).\<close>

definition habit_new :: habit where
  "habit_new = \<lparr>rid = Some ''h1'', updatedAt = Some 1704067200000, synced = True,
                props = [(''name'', ''Read'')], currentStreak = 0, longestStreak = 0,
                lastCompleted = None, completionHistory = []\<rparr>"

definition clock_jan3 :: clock where
  "clock_jan3 = \<lparr>todayStr = 19725, yesterdayStr = 19724\<rparr>"

text \<open>A payload of another application, and a database to export.\<close>

definition backup_foreign :: "entity backup" where
  "backup_foreign =
     \<lparr>data = Some [(''tasks'', [task_C])], exportedAt = ''2024-01-02T00:00:00.000Z'',
      version = Some ''1.0'', app = Some ''OtherApp''\<rparr>"

definition database_sample :: "entity database" where
  "database_sample =
     \<lparr>tasks = [task_A, task_C], expenses = [], habits = [], journal = [task_U], settings = [],
      analytics = []\<rparr>"


section \<open>Properties of the local store\<close>

lemma lookup_Nil [simp]: "lookup kp [] k = None"
  by (simp add: lookup_def)

lemma lookup_Cons [simp]:
  "lookup kp (p # ps) k = (if kp p = Some k then Some p else lookup kp ps k)"
  by (simp add: lookup_def)

lemma lookup_key: "lookup kp s k = Some r \<Longrightarrow> kp r = Some k"
  by (induction s) (auto split: if_splits)

lemma lookup_mem: "lookup kp s k = Some r \<Longrightarrow> r \<in> set s"
  by (induction s) (auto split: if_splits)

lemma lookup_store_put:
  "kp r = Some k \<Longrightarrow>
   lookup kp (store_put kp r s) k' = (if k' = k then Some r else lookup kp s k')"
  by (induction s) auto

lemma set_store_put_subset: "set (store_put kp r s) \<subseteq> insert r (set s)"
  by (induction s) auto

lemma wf_store_Nil [simp]: "wf_store kp []"
  by (simp add: wf_store_def)

lemma wf_store_put:
  assumes "wf_store kp s" and "kp r = Some k"
  shows "wf_store kp (store_put kp r s)"
  using assms
proof (induction s)
  case Nil
  then show ?case by (simp add: wf_store_def)
next
  case (Cons p ps)
  have tl: "wf_store kp ps"
    using Cons.prems(1) by (simp add: wf_store_def)
  have ih: "wf_store kp (store_put kp r ps)"
    using Cons.IH [OF tl Cons.prems(2)] .
  have sub: "set (store_put kp r ps) \<subseteq> insert r (set ps)"
    by (rule set_store_put_subset)
  show ?case
  proof (cases "kp p = kp r")
    case True
    then show ?thesis
      using Cons.prems by (simp add: wf_store_def)
  next
    case False
    show ?thesis
    proof (cases "kp r < kp p")
      case True
      then show ?thesis
        using Cons.prems False by (auto simp: wf_store_def)
    next
      case ge: False
      with False have lt: "kp p < kp r" by simp
      have "\<forall>x\<in>set (store_put kp r ps). kp p < kp x"
        using sub lt Cons.prems(1) by (auto simp: wf_store_def)
      then show ?thesis
        using ih False ge Cons.prems by (simp add: wf_store_def)
    qed
  qed
qed

lemma wf_store_distinct: "wf_store kp s \<Longrightarrow> distinct (map kp s)"
  by (simp add: wf_store_def strict_sorted_iff)

lemma wf_store_tail: "wf_store kp (p # ps) \<Longrightarrow> wf_store kp ps"
  by (simp add: wf_store_def)

lemma wf_store_head_less: "wf_store kp (p # ps) \<Longrightarrow> x \<in> set ps \<Longrightarrow> kp p < kp x"
  by (simp add: wf_store_def)

text \<open>On a store that holds a record under the key, \<open>store_put\<close> replaces that record
  in place and leaves every other record where it is.\<close>

lemma store_put_replace:
  assumes "wf_store kp s" and "lookup kp s k = Some old" and "kp r = Some k"
  shows "store_put kp r s = map (\<lambda>x. if kp x = Some k then r else x) s"
  using assms
proof (induction s)
  case Nil
  then show ?case by simp
next
  case (Cons p ps)
  show ?case
  proof (cases "kp p = Some k")
    case True
    have "\<forall>x\<in>set ps. kp x \<noteq> Some k"
      using wf_store_head_less [OF Cons.prems(1)] True by fastforce
    then have "map (\<lambda>x. if kp x = Some k then r else x) ps = ps"
      by (simp add: map_idI)
    then show ?thesis
      using True Cons.prems(3) by simp
  next
    case False
    then have inps: "lookup kp ps k = Some old"
      using Cons.prems(2) by simp
    then have "old \<in> set ps" and "kp old = Some k"
      by (auto dest: lookup_mem lookup_key)
    then have "kp p < Some k"
      using wf_store_head_less [OF Cons.prems(1)] by fastforce
    then have "\<not> kp r < kp p"
      using Cons.prems(3) by simp
    then show ?thesis
      using False Cons.prems(3) Cons.IH [OF wf_store_tail [OF Cons.prems(1)] inps Cons.prems(3)]
      by simp
  qed
qed

lemma wf_store_db_add: "wf_store kp s \<Longrightarrow> db_add kp s r = Inr s' \<Longrightarrow> wf_store kp s'"
  by (auto simp: db_add_def wf_store_put split: option.splits)

lemma wf_store_db_update: "wf_store kp s \<Longrightarrow> db_update kp s r = Inr s' \<Longrightarrow> wf_store kp s'"
  by (auto simp: db_update_def wf_store_put split: option.splits)

lemma wf_store_delete: "wf_store kp s \<Longrightarrow> wf_store kp (store_delete kp k s)"
  by (induction s) (auto simp: wf_store_def store_delete_def)

lemma store_put_last:
  "\<forall>p\<in>set s. kp p < kp r \<Longrightarrow> store_put kp r s = s @ [r]"
  by (induction s) auto

lemma lookup_absent: "\<forall>p\<in>set s. kp p \<noteq> Some k \<Longrightarrow> lookup kp s k = None"
  by (induction s) auto

lemma wf_store_snoc:
  "wf_store kp (xs @ [x]) \<longleftrightarrow> wf_store kp xs \<and> kp x \<noteq> None \<and> (\<forall>p\<in>set xs. kp p < kp x)"
  by (auto simp: wf_store_def sorted_wrt_append)


section \<open>Completing a queue entry\<close>

text \<open>
  C10. \<^verbatim>\<open>markSyncItemComplete\<close> never throws. Called with an id that no queue
  entry has, it returns the queue as it was. Called with the id of an entry, it changes
  that entry only: the entry keeps every field but \<^verbatim>\<open>status\<close>, which becomes
  \<^verbatim>\<open>'completed'\<close>, and \<^verbatim>\<open>completedAt\<close>, which becomes the clock reading;
  every other entry of the queue is the entry it was, at the place it was. The queue is
  the only store the method is given, so no other store can change.
\<close>

theorem markSyncItemComplete_frame:
  assumes "wf_store queue_key q"
  shows "(lookup queue_key q ident = None \<longrightarrow> markSyncItemComplete now q ident = Inr q) \<and>
         (lookup queue_key q ident \<noteq> None \<longrightarrow>
            markSyncItemComplete now q ident =
              Inr (map (\<lambda>item. if item_id item = ident then complete_entry now item else item) q))"
proof (intro conjI impI)
  assume "lookup queue_key q ident = None"
  then show "markSyncItemComplete now q ident = Inr q"
    by (simp add: markSyncItemComplete_def db_get_def)
next
  assume "lookup queue_key q ident \<noteq> None"
  then obtain item where found: "lookup queue_key q ident = Some item"
    by blast
  have key: "queue_key (complete_entry now item) = Some ident"
    using lookup_key [OF found] by (simp add: queue_key_def complete_entry_def)
  have run: "markSyncItemComplete now q ident = Inr (store_put queue_key (complete_entry now item) q)"
    using found key
    by (simp add: markSyncItemComplete_def db_get_def db_update_def complete_entry_def)
  have only: "\<forall>x\<in>set q. item_id x = ident \<longrightarrow> x = item"
  proof (intro ballI impI)
    fix x
    assume x: "x \<in> set q" and "item_id x = ident"
    then have "queue_key x = queue_key item"
      using lookup_key [OF found] by (simp add: queue_key_def)
    moreover have "inj_on queue_key (set q)"
      using wf_store_distinct [OF assms] by (simp add: distinct_map)
    ultimately show "x = item"
      using x lookup_mem [OF found] by (auto dest: inj_onD)
  qed
  have "store_put queue_key (complete_entry now item) q =
          map (\<lambda>x. if queue_key x = Some ident then complete_entry now item else x) q"
    by (rule store_put_replace [OF assms found key])
  also have "\<dots> = map (\<lambda>x. if item_id x = ident then complete_entry now x else x) q"
    using only by (auto simp: queue_key_def)
  finally show "markSyncItemComplete now q ident =
      Inr (map (\<lambda>item. if item_id item = ident then complete_entry now item else item) q)"
    using run by simp
qed

theorem markSyncItemComplete_frame_witness:
  "wf_store queue_key queue_example \<and>
   lookup queue_key queue_example 7 = None \<and>
   markSyncItemComplete ''2024-01-02T10:00:00.000Z'' queue_example 7 = Inr queue_example \<and>
   lookup queue_key queue_example 2 \<noteq> None \<and>
   markSyncItemComplete ''2024-01-02T10:00:00.000Z'' queue_example 2 =
     Inr [\<lparr>item_id = 1, item_type = ''task'', item_data = (), status = Pending,
            createdAt = ''2024-01-01T08:00:00.000Z'', attempts = 0, completedAt = None\<rparr>,
          \<lparr>item_id = 2, item_type = ''expense'', item_data = (), status = Completed,
            createdAt = ''2024-01-01T09:00:00.000Z'', attempts = 1,
            completedAt = Some ''2024-01-02T10:00:00.000Z''\<rparr>]"
proof -
  have wf: "wf_store queue_key queue_example"
    by (simp add: wf_store_def queue_example_def queue_key_def)
  have absent: "lookup queue_key queue_example 7 = None"
    by (simp add: queue_example_def queue_key_def)
  have present: "lookup queue_key queue_example 2 \<noteq> None"
    by (simp add: queue_example_def queue_key_def)
  show ?thesis
    using wf absent present
      markSyncItemComplete_frame [OF wf, of 7 "''2024-01-02T10:00:00.000Z''"]
      markSyncItemComplete_frame [OF wf, of 2 "''2024-01-02T10:00:00.000Z''"]
    by (simp add: queue_example_def complete_entry_def)
qed


section \<open>The retry ceiling\<close>

text \<open>A failure below the ceiling writes nothing: the queue is the queue it was.\<close>

lemma onPushFailure_below_ceiling:
  "attempts item + 1 < maxRetries \<Longrightarrow> onPushFailure q item = Inr q"
  by (simp add: onPushFailure_def Let_def)

text \<open>At the ceiling the entry is written with the new count and the status failed.\<close>

lemma onPushFailure_at_ceiling:
  "maxRetries \<le> attempts item + 1 \<Longrightarrow>
   onPushFailure q item =
     Inr (store_put queue_key (item\<lparr>attempts := attempts item + 1, status := Failed\<rparr>) q)"
  by (simp add: onPushFailure_def Let_def db_update_def queue_key_def)

lemma drain_failing: "syncPendingItems net_down now queue_pending = (queue_pending, None)"
  by (simp add: syncPendingItems_def getPendingSyncItems_def db_getAll_def queue_pending_def
      syncPendingItem_def syncHandlers_def syncTask_def apiRequest_def net_down_def
      onPushFailure_def maxRetries_def)

text \<open>
  C1. The queue holds one pending entry of type \<^verbatim>\<open>task\<close> with \<^verbatim>\<open>attempts: 0\<close>,
  and the network is down, so every push of it fails. After any number \<open>k\<close> of runs of
  \<^verbatim>\<open>syncPendingItems\<close> the queue is what it was: the stored count is still 0 and
  the status still pending. The count that the \<^verbatim>\<open>catch\<close> block raises lives in
  the object read for that run only, so no run sees a count above 1 and the ceiling of
  3 is never reached.
\<close>

theorem syncPendingItems_attempts_not_persisted:
  "syncTask net_down task_A = Inl Offline \<and>
   ((\<lambda>q. fst (syncPendingItems net_down now q)) ^^ k) queue_pending = queue_pending \<and>
   map attempts queue_pending = [0] \<and> map status queue_pending = [Pending]"
proof -
  have "((\<lambda>q. fst (syncPendingItems net_down now q)) ^^ k) queue_pending = queue_pending"
    by (induction k) (simp_all add: drain_failing)
  then show ?thesis
    by (simp add: syncTask_def apiRequest_def net_down_def queue_pending_def)
qed


section \<open>Applying remote updates\<close>

lemma date_gt_irrefl: "\<not> date_gt a a"
  by (simp add: date_gt_def split: option.splits)

lemma date_gt_chain: "date_gt b c \<Longrightarrow> \<not> date_gt a c \<Longrightarrow> \<not> date_gt a b"
  by (auto simp: date_gt_def split: option.splits)

lemma date_gt_trans: "date_gt a b \<Longrightarrow> date_gt b c \<Longrightarrow> date_gt a c"
  by (auto simp: date_gt_def split: option.splits)

lemma applyRemoteUpdates_invalid:
  "rid u = None \<Longrightarrow> applyRemoteUpdates s (u # rest) = (s, Some DataError)"
  by (simp add: db_get_def)

lemma applyRemoteUpdates_insert:
  "rid u = Some k \<Longrightarrow> lookup rid s k = None \<Longrightarrow>
   applyRemoteUpdates s (u # rest) = applyRemoteUpdates (store_put rid u s) rest"
  by (simp add: db_get_def db_add_def)

lemma applyRemoteUpdates_newer:
  "rid u = Some k \<Longrightarrow> lookup rid s k = Some e \<Longrightarrow> date_gt (updatedAt u) (updatedAt e) \<Longrightarrow>
   applyRemoteUpdates s (u # rest) = applyRemoteUpdates (store_put rid u s) rest"
  by (simp add: db_get_def db_update_def)

lemma applyRemoteUpdates_keep:
  "rid u = Some k \<Longrightarrow> lookup rid s k = Some e \<Longrightarrow> \<not> date_gt (updatedAt u) (updatedAt e) \<Longrightarrow>
   applyRemoteUpdates s (u # rest) = applyRemoteUpdates s rest"
  by (simp add: db_get_def)

lemma applyRemoteUpdates_append:
  "applyRemoteUpdates s (xs @ ys) =
     (case applyRemoteUpdates s xs of
        (s1, None) \<Rightarrow> applyRemoteUpdates s1 ys
      | (s1, Some e) \<Rightarrow> (s1, Some e))"
proof (induction xs arbitrary: s)
  case Nil
  show ?case by simp
next
  case (Cons u us)
  show ?case
    by (simp add: Cons.IH split: sum.splits option.splits)
qed

text \<open>
  C3. Let \<open>s1\<close> be the store when \<^verbatim>\<open>applyRemoteUpdates\<close> comes to the incoming
  record \<open>u\<close> with id \<open>k\<close>, after the records \<open>pre\<close> before it in the batch. If
  \<open>s1\<close> holds no record under \<open>k\<close>, then \<open>u\<close> is inserted. If it holds the record
  \<open>e\<close> and the \<^verbatim>\<open>updatedAt\<close> of \<open>u\<close> is strictly greater than that of \<open>e\<close>,
  then \<open>u\<close> is stored under \<open>k\<close>. Otherwise the whole store, and so the local
  record, is left as it was. Records under other ids are never touched.
\<close>

theorem applyRemoteUpdates_conflict_resolution:
  assumes "applyRemoteUpdates s pre = (s1, None)" and "rid u = Some k"
  shows "\<exists>s2. applyRemoteUpdates s (pre @ [u]) = (s2, None) \<and>
           (case lookup rid s1 k of
              None \<Rightarrow> lookup rid s2 k = Some u
            | Some e \<Rightarrow>
                if date_gt (updatedAt u) (updatedAt e) then lookup rid s2 k = Some u
                else s2 = s1) \<and>
           (\<forall>j. j \<noteq> k \<longrightarrow> lookup rid s2 j = lookup rid s1 j)"
proof -
  have split: "applyRemoteUpdates s (pre @ [u]) = applyRemoteUpdates s1 [u]"
    using assms(1) by (simp add: applyRemoteUpdates_append)
  have put: "lookup rid (store_put rid u s1) j = (if j = k then Some u else lookup rid s1 j)" for j
    using assms(2) by (rule lookup_store_put)
  show ?thesis
  proof (cases "lookup rid s1 k")
    case None
    then show ?thesis
      using split applyRemoteUpdates_insert [OF assms(2) None, of "[]"] put
      by simp
  next
    case (Some e)
    show ?thesis
    proof (cases "date_gt (updatedAt u) (updatedAt e)")
      case True
      then show ?thesis
        using split Some applyRemoteUpdates_newer [OF assms(2) Some True, of "[]"] put
        by simp
    next
      case False
      then show ?thesis
        using split Some applyRemoteUpdates_keep [OF assms(2) Some False, of "[]"]
        by simp
    qed
  qed
qed

theorem applyRemoteUpdates_conflict_resolution_witness:
  "applyRemoteUpdates [task_A] [task_C] = ([task_A, task_C], None) \<and>
   rid task_B = Some ''t1'' \<and>
   applyRemoteUpdates [task_A] ([task_C] @ [task_B]) = ([task_B, task_C], None) \<and>
   applyRemoteUpdates [task_B] [task_C] = ([task_B, task_C], None) \<and>
   rid task_A = Some ''t1'' \<and>
   applyRemoteUpdates [task_B] ([task_C] @ [task_A]) = ([task_B, task_C], None)"
proof -
  have pre1: "applyRemoteUpdates [task_A] [task_C] = ([task_A, task_C], None)"
    by (simp add: db_get_def db_add_def task_A_def task_C_def)
  have pre2: "applyRemoteUpdates [task_B] [task_C] = ([task_B, task_C], None)"
    by (simp add: db_get_def db_add_def task_B_def task_C_def)
  have idB: "rid task_B = Some ''t1''"
    by (simp add: task_B_def)
  have idA: "rid task_A = Some ''t1''"
    by (simp add: task_A_def)
  have run1: "applyRemoteUpdates [task_A] ([task_C] @ [task_B]) = ([task_B, task_C], None)"
    by (simp add: db_get_def db_add_def db_update_def date_gt_def task_A_def task_B_def task_C_def)
  have run2: "applyRemoteUpdates [task_B] ([task_C] @ [task_A]) = ([task_B, task_C], None)"
    by (simp add: db_get_def db_add_def db_update_def date_gt_def task_A_def task_B_def task_C_def)
  show ?thesis
    using pre1 pre2 idA idB run1 run2
      applyRemoteUpdates_conflict_resolution [OF pre1 idB]
      applyRemoteUpdates_conflict_resolution [OF pre2 idA]
    by simp
qed

lemma settledE:
  assumes "settled s u"
  obtains k e where "rid u = Some k" and "lookup rid s k = Some e"
    and "\<not> date_gt (updatedAt u) (updatedAt e)"
  using assms by (auto simp: settled_def split: option.splits)

lemma settled_skip:
  "settled s u \<Longrightarrow> applyRemoteUpdates s (u # rest) = applyRemoteUpdates s rest"
  by (erule settledE) (rule applyRemoteUpdates_keep)

lemma settled_after_put:
  assumes "rid u = Some k"
  shows "settled (store_put rid u s) u"
proof -
  have "lookup rid (store_put rid u s) k = Some u"
    using lookup_store_put [where kp = rid and r = u and k = k and s = s and k' = k] assms by simp
  then show ?thesis
    using assms by (simp add: settled_def date_gt_irrefl)
qed

lemma settled_put_other:
  assumes v: "settled s v" and u: "rid u = Some k"
    and step: "lookup rid s k = None \<or> (\<exists>e. lookup rid s k = Some e \<and> date_gt (updatedAt u) (updatedAt e))"
  shows "settled (store_put rid u s) v"
proof -
  obtain kv ev where kv: "rid v = Some kv" and ev: "lookup rid s kv = Some ev"
    and nv: "\<not> date_gt (updatedAt v) (updatedAt ev)"
    using v by (rule settledE)
  have put: "lookup rid (store_put rid u s) j = (if j = k then Some u else lookup rid s j)" for j
    using u by (rule lookup_store_put)
  show ?thesis
  proof (cases "kv = k")
    case False
    then have "lookup rid (store_put rid u s) kv = Some ev"
      using put ev by simp
    then show ?thesis
      using kv nv by (simp add: settled_def)
  next
    case True
    with step ev have "date_gt (updatedAt u) (updatedAt ev)" by auto
    then have "\<not> date_gt (updatedAt v) (updatedAt u)"
      using nv by (rule date_gt_chain)
    moreover have "lookup rid (store_put rid u s) kv = Some u"
      using put True by simp
    ultimately show ?thesis
      using kv by (simp add: settled_def)
  qed
qed

lemma applyRemoteUpdates_settles:
  assumes "\<forall>v\<in>set seen. settled s v" and "applyRemoteUpdates s us = (s1, err)"
  shows "(\<forall>v\<in>set seen. settled s1 v) \<and> applyRemoteUpdates s1 us = (s1, err)"
  using assms
proof (induction us arbitrary: s seen)
  case Nil
  then show ?case by simp
next
  case (Cons u us)
  show ?case
  proof (cases "rid u")
    case None
    have "applyRemoteUpdates s' (u # us) = (s', Some DataError)" for s'
      using None by (rule applyRemoteUpdates_invalid)
    then show ?thesis
      using Cons.prems by (simp del: applyRemoteUpdates.simps)
  next
    case (Some k)
    show ?thesis
    proof (cases "lookup rid s k = None \<or> (\<exists>e. lookup rid s k = Some e \<and> date_gt (updatedAt u) (updatedAt e))")
      case True
      define s' where "s' = store_put rid u s"
      have run: "applyRemoteUpdates s (u # us) = applyRemoteUpdates s' us"
        using True Some applyRemoteUpdates_insert applyRemoteUpdates_newer
        unfolding s'_def by blast
      have "\<forall>v\<in>set (u # seen). settled s' v"
        using Cons.prems(1) settled_put_other [OF _ Some True] settled_after_put [OF Some]
        unfolding s'_def by auto
      moreover have "applyRemoteUpdates s' us = (s1, err)"
        using run Cons.prems(2) by simp
      ultimately have ih: "(\<forall>v\<in>set (u # seen). settled s1 v) \<and> applyRemoteUpdates s1 us = (s1, err)"
        by (rule Cons.IH)
      then show ?thesis
        using settled_skip [of s1 u us] by (simp del: applyRemoteUpdates.simps)
    next
      case False
      then obtain e where e: "lookup rid s k = Some e" and ng: "\<not> date_gt (updatedAt u) (updatedAt e)"
        by (cases "lookup rid s k") auto
      have u_settled: "settled s u"
        using Some e ng by (simp add: settled_def)
      have run: "applyRemoteUpdates s (u # us) = applyRemoteUpdates s us"
        using u_settled by (rule settled_skip)
      have "\<forall>v\<in>set (u # seen). settled s v"
        using Cons.prems(1) u_settled by simp
      moreover have "applyRemoteUpdates s us = (s1, err)"
        using run Cons.prems(2) by simp
      ultimately have ih: "(\<forall>v\<in>set (u # seen). settled s1 v) \<and> applyRemoteUpdates s1 us = (s1, err)"
        by (rule Cons.IH)
      then show ?thesis
        using settled_skip [of s1 u us] by (simp del: applyRemoteUpdates.simps)
    qed
  qed
qed

text \<open>
  C4. For every store and every batch, applying the batch to the store that a first
  application left gives that same store again, and ends the same way (with no error,
  or with the same error at the same record).
\<close>

theorem applyRemoteUpdates_idempotent:
  "applyRemoteUpdates (fst (applyRemoteUpdates s us)) us = applyRemoteUpdates s us"
proof -
  obtain s1 err where run: "applyRemoteUpdates s us = (s1, err)"
    by (cases "applyRemoteUpdates s us")
  have "applyRemoteUpdates s1 us = (s1, err)"
    using applyRemoteUpdates_settles [of "[]" s us s1 err] run by simp
  then show ?thesis
    using run by simp
qed

lemma applyRemoteUpdates_never_older:
  assumes "applyRemoteUpdates s us = (s', err)" and "lookup rid s k = Some e"
  shows "\<exists>e'. lookup rid s' k = Some e' \<and> (e' = e \<or> date_gt (updatedAt e') (updatedAt e))"
  using assms
proof (induction us arbitrary: s e)
  case Nil
  then show ?case by simp
next
  case (Cons u us)
  show ?case
  proof (cases "rid u")
    case None
    then show ?thesis
      using Cons.prems applyRemoteUpdates_invalid [OF None, of s us] by simp
  next
    case (Some ku)
    have put: "lookup rid (store_put rid u s) j = (if j = ku then Some u else lookup rid s j)" for j
      using Some by (rule lookup_store_put)
    show ?thesis
    proof (cases "lookup rid s ku")
      case None
      then have run: "applyRemoteUpdates (store_put rid u s) us = (s', err)"
        using Cons.prems(1) applyRemoteUpdates_insert [OF Some None, of us] by simp
      have "lookup rid (store_put rid u s) k = Some e"
        using put None Cons.prems(2) by auto
      then show ?thesis
        using Cons.IH [OF run] by blast
    next
      case existing: (Some x)
      show ?thesis
      proof (cases "date_gt (updatedAt u) (updatedAt x)")
        case False
        then have run: "applyRemoteUpdates s us = (s', err)"
          using Cons.prems(1) applyRemoteUpdates_keep [OF Some existing False, of us] by simp
        show ?thesis
          using Cons.IH [OF run Cons.prems(2)] .
      next
        case True
        then have run: "applyRemoteUpdates (store_put rid u s) us = (s', err)"
          using Cons.prems(1) applyRemoteUpdates_newer [OF Some existing True, of us] by simp
        show ?thesis
        proof (cases "k = ku")
          case False
          then have "lookup rid (store_put rid u s) k = Some e"
            using put Cons.prems(2) by simp
          then show ?thesis
            using Cons.IH [OF run] by blast
        next
          case same: True
          then have xe: "x = e"
            using existing Cons.prems(2) by simp
          have "lookup rid (store_put rid u s) k = Some u"
            using put same by simp
          then obtain e' where e': "lookup rid s' k = Some e'"
            and rel: "e' = u \<or> date_gt (updatedAt e') (updatedAt u)"
            using Cons.IH [OF run] by blast
          have "date_gt (updatedAt e') (updatedAt e)"
            using rel True xe date_gt_trans by blast
          then show ?thesis
            using e' by blast
        qed
      qed
    qed
  qed
qed

lemma wf_store_applyRemoteUpdates:
  "wf_store rid s \<Longrightarrow> applyRemoteUpdates s us = (s', err) \<Longrightarrow> wf_store rid s'"
proof (induction us arbitrary: s)
  case Nil
  then show ?case by simp
next
  case (Cons u us)
  show ?case
  proof (cases "rid u")
    case None
    then show ?thesis
      using Cons.prems applyRemoteUpdates_invalid [OF None, of s us] by simp
  next
    case (Some ku)
    have wfput: "wf_store rid (store_put rid u s)"
      using Cons.prems(1) Some by (rule wf_store_put)
    show ?thesis
    proof (cases "lookup rid s ku")
      case None
      then show ?thesis
        using Cons.prems(2) applyRemoteUpdates_insert [OF Some None, of us] Cons.IH [OF wfput] by simp
    next
      case existing: (Some x)
      show ?thesis
      proof (cases "date_gt (updatedAt u) (updatedAt x)")
        case False
        then show ?thesis
          using Cons.prems applyRemoteUpdates_keep [OF Some existing False, of us] Cons.IH [of s] by simp
      next
        case True
        then show ?thesis
          using Cons.prems(2) applyRemoteUpdates_newer [OF Some existing True, of us] Cons.IH [OF wfput] by simp
      qed
    qed
  qed
qed

text \<open>
  C7, as the claim states it, fails for \<^verbatim>\<open>update\<close>: the store holds task
  \<^verbatim>\<open>t1\<close> as updated on 2024-01-02, and \<^verbatim>\<open>update\<close> with the version of
  2024-01-01 replaces it by the older record.
\<close>

theorem db_update_older_counterexample:
  "lookup rid [task_B] ''t1'' = Some task_B \<and>
   db_update rid [task_B] task_A = Inr [task_A] \<and>
   date_gt (updatedAt task_B) (updatedAt task_A)"
  by (simp add: db_update_def date_gt_def task_A_def task_B_def)

text \<open>
  C7, amended. In an entity store ids are unique: \<^verbatim>\<open>add\<close> of a record whose id is
  stored fails with the duplicate-key error \<^verbatim>\<open>ConstraintError\<close>, and a store
  written by \<^verbatim>\<open>add\<close>, \<^verbatim>\<open>update\<close> or \<^verbatim>\<open>applyRemoteUpdates\<close> has no two
  records with one id. \<^verbatim>\<open>applyRemoteUpdates\<close> never leaves under an id a record
  whose \<^verbatim>\<open>updatedAt\<close> is older than that of the record it found there.
  \<^verbatim>\<open>update\<close> is an upsert without a condition: the record it is given is the
  record stored afterwards, whatever its \<^verbatim>\<open>updatedAt\<close>.
\<close>

theorem entity_store_writes:
  assumes "wf_store rid s"
  shows "(lookup rid s k \<noteq> None \<and> rid r = Some k \<longrightarrow> db_add rid s r = Inl ConstraintError) \<and>
         (db_add rid s r = Inr s1 \<longrightarrow> wf_store rid s1 \<and> distinct (map rid s1)) \<and>
         (applyRemoteUpdates s us = (s2, err) \<longrightarrow>
            wf_store rid s2 \<and>
            (\<forall>j e. lookup rid s j = Some e \<longrightarrow>
               (\<exists>e'. lookup rid s2 j = Some e' \<and> \<not> date_gt (updatedAt e) (updatedAt e')))) \<and>
         (rid r = Some k \<longrightarrow>
            db_update rid s r = Inr (store_put rid r s) \<and>
            lookup rid (store_put rid r s) k = Some r \<and>
            wf_store rid (store_put rid r s))"
proof (intro conjI impI allI)
  assume "lookup rid s k \<noteq> None \<and> rid r = Some k"
  then show "db_add rid s r = Inl ConstraintError"
    by (auto simp: db_add_def)
next
  assume a: "db_add rid s r = Inr s1"
  show "wf_store rid s1"
    using assms a by (rule wf_store_db_add)
  then show "distinct (map rid s1)"
    by (rule wf_store_distinct)
next
  assume "applyRemoteUpdates s us = (s2, err)"
  then show "wf_store rid s2"
    using assms wf_store_applyRemoteUpdates by blast
next
  fix j e
  assume run: "applyRemoteUpdates s us = (s2, err)" and old: "lookup rid s j = Some e"
  obtain e' where e': "lookup rid s2 j = Some e'"
    and rel: "e' = e \<or> date_gt (updatedAt e') (updatedAt e)"
    using applyRemoteUpdates_never_older [OF run old] by blast
  have "\<not> date_gt (updatedAt e) (updatedAt e')"
    using rel date_gt_irrefl date_gt_trans by blast
  then show "\<exists>e'. lookup rid s2 j = Some e' \<and> \<not> date_gt (updatedAt e) (updatedAt e')"
    using e' by blast
next
  assume k: "rid r = Some k"
  then show "db_update rid s r = Inr (store_put rid r s)"
    by (simp add: db_update_def)
  show "lookup rid (store_put rid r s) k = Some r"
    using lookup_store_put [where kp = rid and r = r and k = k and s = s and k' = k] k by simp
  show "wf_store rid (store_put rid r s)"
    using assms k by (rule wf_store_put)
qed

theorem entity_store_writes_witness:
  "wf_store rid [task_B] \<and>
   lookup rid [task_B] ''t1'' \<noteq> None \<and> rid task_A = Some ''t1'' \<and>
   db_add rid [task_B] task_A = Inl ConstraintError \<and>
   db_add rid [task_B] task_C = Inr [task_B, task_C] \<and>
   wf_store rid [task_B, task_C] \<and> distinct (map rid [task_B, task_C]) \<and>
   applyRemoteUpdates [task_B] [task_A] = ([task_B], None) \<and>
   db_update rid [task_B] task_A = Inr [task_A]"
proof -
  have wf: "wf_store rid [task_B]"
    by (simp add: wf_store_def task_B_def)
  have found: "lookup rid [task_B] ''t1'' \<noteq> None"
    by (simp add: task_B_def)
  have idA: "rid task_A = Some ''t1''"
    by (simp add: task_A_def)
  have add: "db_add rid [task_B] task_C = Inr [task_B, task_C]"
    by (simp add: db_add_def task_B_def task_C_def)
  have pull: "applyRemoteUpdates [task_B] [task_A] = ([task_B], None)"
    by (simp add: db_get_def date_gt_def task_A_def task_B_def)
  have put: "store_put rid task_A [task_B] = [task_A]"
    by (simp add: task_A_def task_B_def)
  show ?thesis
    using wf found idA add pull put
      entity_store_writes [OF wf, of "''t1''" task_A "[task_B]" "[task_A]" "[task_B]" None]
      entity_store_writes [OF wf, of "''t1''" task_C "[task_B, task_C]" "[task_A]" "[task_B]" None]
    by simp
qed


section \<open>The checkpoint\<close>

text \<open>
  C2. Whenever \<^verbatim>\<open>fetchRemoteChanges\<close> catches an error, from the request or from
  applying any of the batches and whatever was applied before, the checkpoint
  \<^verbatim>\<open>lastSync\<close> is what it was. When it catches none, the checkpoint is the clock
  reading, the request succeeded, and each of the three batches was applied to its store
  without an error.
\<close>

theorem fetchRemoteChanges_checkpoint:
  assumes "fetchRemoteChanges n nowMs st = (st', caught)"
  shows "(caught \<noteq> None \<longrightarrow> lastSync st' = lastSync st) \<and>
         (caught = None \<longrightarrow>
            lastSync st' = Some nowMs \<and>
            (\<exists>resp. apiRequest n (GetSync (since st)) = Inr resp \<and>
               applyBatch (tasks (stores st)) (remote_tasks (updates_of resp)) =
                 (tasks (stores st'), None) \<and>
               applyBatch (expenses (stores st)) (remote_expenses (updates_of resp)) =
                 (expenses (stores st'), None) \<and>
               applyBatch (journal (stores st)) (remote_journal (updates_of resp)) =
                 (journal (stores st'), None)))"
  using assms
  by (auto simp: fetchRemoteChanges_def split: sum.splits prod.splits option.splits)

text \<open>
  The batch of tasks applies and replaces task \<^verbatim>\<open>t1\<close>; the batch of expenses throws
  on the record without id; the checkpoint stays. With the good change set it advances.
\<close>

lemma fetch_bad:
  "fetchRemoteChanges net_bad_expense 1704160000000 engine_idle =
     (engine_idle\<lparr>stores := (stores engine_idle)\<lparr>tasks := [task_B]\<rparr>\<rparr>, Some DataError)"
  by (simp add: fetchRemoteChanges_def apiRequest_def net_bad_expense_def engine_idle_def
      updates_of_def applyBatch_def db_get_def db_update_def date_gt_def
      task_A_def task_B_def expense_no_id_def since_def)

lemma fetch_good:
  "fetchRemoteChanges net_good 1704160000000 engine_idle =
     (engine_idle\<lparr>stores := (stores engine_idle)\<lparr>tasks := [task_B]\<rparr>,
                   lastSync := Some 1704160000000\<rparr>, None)"
  by (simp add: fetchRemoteChanges_def apiRequest_def net_good_def engine_idle_def
      updates_of_def applyBatch_def db_get_def db_update_def date_gt_def
      task_A_def task_B_def since_def)

theorem fetchRemoteChanges_checkpoint_witness:
  "fetchRemoteChanges net_bad_expense 1704160000000 engine_idle =
     (engine_idle\<lparr>stores := (stores engine_idle)\<lparr>tasks := [task_B]\<rparr>\<rparr>, Some DataError) \<and>
   tasks (stores engine_idle) = [task_A] \<and>
   lastSync (engine_idle\<lparr>stores := (stores engine_idle)\<lparr>tasks := [task_B]\<rparr>\<rparr>) = lastSync engine_idle \<and>
   fetchRemoteChanges net_good 1704160000000 engine_idle =
     (engine_idle\<lparr>stores := (stores engine_idle)\<lparr>tasks := [task_B]\<rparr>,
                   lastSync := Some 1704160000000\<rparr>, None) \<and>
   lastSync (engine_idle\<lparr>stores := (stores engine_idle)\<lparr>tasks := [task_B]\<rparr>,
                          lastSync := Some 1704160000000\<rparr>) = Some 1704160000000"
  using fetch_bad fetch_good
    fetchRemoteChanges_checkpoint [OF fetch_bad] fetchRemoteChanges_checkpoint [OF fetch_good]
  by (simp add: engine_idle_def)


section \<open>The sync cycle\<close>

lemma onPushFailure_Inr: "\<exists>q'. onPushFailure q item = Inr q'"
  by (simp add: onPushFailure_def db_update_def queue_key_def Let_def)

lemma markSyncItemComplete_Inr: "\<exists>q'. markSyncItemComplete now q i = Inr q'"
  by (simp add: markSyncItemComplete_def db_get_def db_update_def queue_key_def
      split: option.splits)

lemma syncPendingItem_Inr: "\<exists>q'. syncPendingItem n now q item = Inr q'"
  using onPushFailure_Inr [of q item] markSyncItemComplete_Inr [of now q "item_id item"]
  by (auto simp: syncPendingItem_def split: option.splits sum.splits)

lemma syncPendingLoop_no_throw: "snd (syncPendingLoop n now q items) = None"
proof (induction items arbitrary: q)
  case Nil
  show ?case by simp
next
  case (Cons item items)
  obtain q' where "syncPendingItem n now q item = Inr q'"
    using syncPendingItem_Inr by blast
  then show ?case
    using Cons.IH [of q'] by simp
qed

lemma syncPendingItems_no_throw: "snd (syncPendingItems n now q) = None"
  by (simp add: syncPendingItems_def syncPendingLoop_no_throw)

text \<open>
  C8, as the claim states it, fails: the network is down, nothing waits to be pushed, the
  pull phase fails with \<^verbatim>\<open>Offline\<close>, and the cycle emits \<^verbatim>\<open>syncComplete\<close>.
\<close>

theorem syncAll_pull_failure_counterexample:
  "snd (fetchRemoteChanges net_down 1704160000000 engine_idle) = Some Offline \<and>
   emitted (syncAll net_down ''2024-01-02T02:00:00.000Z'' 1704160000000 engine_idle) = [SyncComplete]"
  by (simp add: syncAll_def syncCycle_def syncPendingItems_def getPendingSyncItems_def
      db_getAll_def syncLocalChanges_def syncStore_def fetchRemoteChanges_def apiRequest_def
      emit_def net_down_def engine_idle_def task_A_def)

text \<open>
  C8, amended. A call of \<^verbatim>\<open>syncAll\<close> while a cycle is in flight changes nothing.
  Any other call leaves the flag \<^verbatim>\<open>isSyncing\<close> released and emits exactly one
  signal: \<^verbatim>\<open>syncError\<close> with the error that the drain phase or the push phase
  threw, and \<^verbatim>\<open>syncComplete\<close> when neither threw, whether the pull phase failed
  or not.
\<close>

theorem syncAll_signals:
  "(isSyncing st \<longrightarrow> syncAll n now nowMs st = st) \<and>
   (\<not> isSyncing st \<longrightarrow>
      \<not> isSyncing (syncAll n now nowMs st) \<and>
      emitted (syncAll n now nowMs st) =
        emitted st @ [case snd (syncPendingItems n now (syncQueue st)) of
                        Some e \<Rightarrow> SyncError e
                      | None \<Rightarrow>
                          (case snd (syncLocalChanges n (stores st)) of
                             Some e \<Rightarrow> SyncError e
                           | None \<Rightarrow> SyncComplete)])"
proof -
  obtain q where q: "syncPendingItems n now (syncQueue st) = (q, None)"
    using syncPendingItems_no_throw [of n now "syncQueue st"]
    by (cases "syncPendingItems n now (syncQueue st)") simp
  obtain d e where d: "syncLocalChanges n (stores st) = (d, e)"
    by (cases "syncLocalChanges n (stores st)")
  obtain st3 c where f: "fetchRemoteChanges n nowMs (st\<lparr>isSyncing := True, syncQueue := q, stores := d\<rparr>) = (st3, c)"
    by (cases "fetchRemoteChanges n nowMs (st\<lparr>isSyncing := True, syncQueue := q, stores := d\<rparr>)")
  have em: "emitted st3 = emitted st"
    using f by (auto simp: fetchRemoteChanges_def split: sum.splits prod.splits option.splits)
  show ?thesis
    using q d f em
    by (cases e) (simp_all add: syncAll_def syncCycle_def emit_def)
qed

theorem syncAll_signals_witness:
  "isSyncing (engine_idle\<lparr>isSyncing := True\<rparr>) \<and>
   syncAll net_down ''2024-01-02T02:00:00.000Z'' 1704160000000 (engine_idle\<lparr>isSyncing := True\<rparr>) =
     engine_idle\<lparr>isSyncing := True\<rparr> \<and>
   \<not> isSyncing engine_unsynced \<and>
   \<not> isSyncing (syncAll net_down ''2024-01-02T02:00:00.000Z'' 1704160000000 engine_unsynced) \<and>
   emitted (syncAll net_down ''2024-01-02T02:00:00.000Z'' 1704160000000 engine_unsynced) =
     [SyncError Offline]"
proof -
  have busy: "isSyncing (engine_idle\<lparr>isSyncing := True\<rparr>)"
    by simp
  have idle: "\<not> isSyncing engine_unsynced"
    by (simp add: engine_unsynced_def)
  have drain: "snd (syncPendingItems net_down ''2024-01-02T02:00:00.000Z'' (syncQueue engine_unsynced)) = None"
    by (simp add: syncPendingItems_def getPendingSyncItems_def db_getAll_def engine_unsynced_def)
  have push: "snd (syncLocalChanges net_down (stores engine_unsynced)) = Some Offline"
    by (simp add: syncLocalChanges_def syncStore_def db_getAll_def syncTask_def apiRequest_def
        net_down_def engine_unsynced_def task_U_def)
  show ?thesis
    using busy idle drain push
      syncAll_signals [of "engine_idle\<lparr>isSyncing := True\<rparr>" net_down
        "''2024-01-02T02:00:00.000Z''" 1704160000000]
      syncAll_signals [of engine_unsynced net_down "''2024-01-02T02:00:00.000Z''" 1704160000000]
    by (simp add: engine_unsynced_def)
qed


section \<open>Habit streaks\<close>

text \<open>
  With the date left out, the method does what its comments say: a second call on the
  same day changes nothing, a call on the day after the last completion continues the
  streak, a call after a gap starts a new streak, and so does a first completion.
\<close>

lemma logHabitCompletion_same_day:
  assumes "lookup rid s habitId = Some h"
    and "lastCompleted h = Some (case date of None \<Rightarrow> todayStr c | Some d \<Rightarrow> d)"
  shows "logHabitCompletion c s habitId date = Inr (AlreadyLogged h, s)"
  using assms by (simp add: logHabitCompletion_def db_get_def)

lemma logHabitCompletion_continue:
  assumes "lookup rid s habitId = Some h"
    and "lastCompleted h = Some (yesterdayStr c)"
    and "yesterdayStr c \<noteq> todayStr c"
  shows "logHabitCompletion c s habitId None =
           Inr (Stored (Some habitId),
                store_put rid
                  (h\<lparr>currentStreak := currentStreak h + 1,
                     longestStreak := max (longestStreak h) (currentStreak h + 1),
                     lastCompleted := Some (todayStr c),
                     completionHistory := completionHistory h @ [todayStr c]\<rparr>) s)"
  using assms lookup_key [OF assms(1)]
  by (simp add: logHabitCompletion_def db_get_def db_update_def Let_def)

lemma logHabitCompletion_reset:
  assumes "lookup rid s habitId = Some h"
    and "lastCompleted h = Some l" and "l \<noteq> yesterdayStr c" and "l \<noteq> todayStr c"
  shows "logHabitCompletion c s habitId None =
           Inr (Stored (Some habitId),
                store_put rid
                  (h\<lparr>currentStreak := 1,
                     lastCompleted := Some (todayStr c),
                     completionHistory := completionHistory h @ [todayStr c]\<rparr>) s)"
  using assms lookup_key [OF assms(1)]
  by (simp add: logHabitCompletion_def db_get_def db_update_def Let_def)

lemma logHabitCompletion_first:
  assumes "lookup rid s habitId = Some h" and "lastCompleted h = None"
  shows "logHabitCompletion c s habitId date =
           Inr (Stored (Some habitId),
                store_put rid
                  (h\<lparr>currentStreak := 1, longestStreak := 1,
                     lastCompleted := Some (case date of None \<Rightarrow> todayStr c | Some d \<Rightarrow> d),
                     completionHistory :=
                       completionHistory h @ [case date of None \<Rightarrow> todayStr c | Some d \<Rightarrow> d]\<rparr>) s)"
  using assms lookup_key [OF assms(1)]
  by (simp add: logHabitCompletion_def db_get_def db_update_def Let_def)

text \<open>
  C5. On 2024-01-03 a habit never completed is logged for the dates 2024-01-01,
  2024-01-02 and 2024-01-03 (days 19723 to 19725), three consecutive days, each given as
  the argument \<^verbatim>\<open>date\<close>. The second call compares the last completion with the day
  before the clock's today, not with the day before the date it is given, and starts the
  streak again; the streak after the third call is 2.
\<close>

theorem logHabitCompletion_dated_streak:
  "logHabitCompletion clock_jan3 [habit_new] ''h1'' (Some 19723) =
     Inr (Stored (Some ''h1''),
          [habit_new\<lparr>currentStreak := 1, longestStreak := 1, lastCompleted := Some 19723,
                      completionHistory := [19723]\<rparr>]) \<and>
   logHabitCompletion clock_jan3
     [habit_new\<lparr>currentStreak := 1, longestStreak := 1, lastCompleted := Some 19723,
                 completionHistory := [19723]\<rparr>] ''h1'' (Some 19724) =
     Inr (Stored (Some ''h1''),
          [habit_new\<lparr>currentStreak := 1, longestStreak := 1, lastCompleted := Some 19724,
                      completionHistory := [19723, 19724]\<rparr>]) \<and>
   logHabitCompletion clock_jan3
     [habit_new\<lparr>currentStreak := 1, longestStreak := 1, lastCompleted := Some 19724,
                 completionHistory := [19723, 19724]\<rparr>] ''h1'' (Some 19725) =
     Inr (Stored (Some ''h1''),
          [habit_new\<lparr>currentStreak := 2, longestStreak := 2, lastCompleted := Some 19725,
                      completionHistory := [19723, 19724, 19725]\<rparr>])"
  by (simp add: logHabitCompletion_def db_get_def db_update_def habit_new_def clock_jan3_def)


section \<open>Backup and restore\<close>

lemma addItems_append:
  "addItems kp s (xs @ ys) =
     (case addItems kp s xs of
        (s1, None) \<Rightarrow> addItems kp s1 ys
      | (s1, Some e) \<Rightarrow> (s1, Some e))"
  by (induction xs arbitrary: s) (auto split: sum.splits)

lemma addItems_rebuild: "wf_store kp s \<Longrightarrow> addItems kp [] s = (s, None)"
proof (induction s rule: rev_induct)
  case Nil
  show ?case by simp
next
  case (snoc x xs)
  from snoc.prems have wf: "wf_store kp xs" and key: "kp x \<noteq> None"
    and above: "\<forall>p\<in>set xs. kp p < kp x"
    by (simp_all add: wf_store_snoc)
  obtain k where k: "kp x = Some k"
    using key by blast
  have "\<forall>p\<in>set xs. kp p \<noteq> Some k"
    using above k by auto
  then have absent: "lookup kp xs k = None"
    by (rule lookup_absent)
  have "db_add kp xs x = Inr (xs @ [x])"
    using k absent store_put_last [OF above] by (simp add: db_add_def)
  then show ?case
    using snoc.IH [OF wf] by (simp add: addItems_append)
qed

lemma clearStores_eq:
  "clearStores (d :: 'r database) =
     \<lparr>tasks = [], expenses = [], habits = [], journal = [], settings = [], analytics = []\<rparr>"
  by (cases d) (simp add: clearStores_def backupStores_def setStore_def getStore_def clearStore_def)

text \<open>
  C9. For every database whose six covered stores are well formed, importing what
  \<^verbatim>\<open>exportData\<close> gives for it, into any database, empty or not, succeeds and leaves
  exactly the exported database: every covered store holds the same records, with the
  same keys and the same properties.
\<close>

theorem export_import_roundtrip:
  fixes d d0 :: "'r database"
  assumes "\<forall>name\<in>set backupStores. wf_store (kp name) (getStore name d)"
  shows "importData kp d0 (exportData now d) = (d, None)"
proof -
  have t: "addItems (kp ''tasks'') [] (tasks d) = (tasks d, None)"
    using assms by (intro addItems_rebuild) (simp add: backupStores_def getStore_def)
  have x: "addItems (kp ''expenses'') [] (expenses d) = (expenses d, None)"
    using assms by (intro addItems_rebuild) (simp add: backupStores_def getStore_def)
  have h: "addItems (kp ''habits'') [] (habits d) = (habits d, None)"
    using assms by (intro addItems_rebuild) (simp add: backupStores_def getStore_def)
  have j: "addItems (kp ''journal'') [] (journal d) = (journal d, None)"
    using assms by (intro addItems_rebuild) (simp add: backupStores_def getStore_def)
  have g: "addItems (kp ''settings'') [] (settings d) = (settings d, None)"
    using assms by (intro addItems_rebuild) (simp add: backupStores_def getStore_def)
  have a: "addItems (kp ''analytics'') [] (analytics d) = (analytics d, None)"
    using assms by (intro addItems_rebuild) (simp add: backupStores_def getStore_def)
  show ?thesis
    using t x h j g a
    by (cases d)
       (simp add: importData_def exportData_def truthy_def clearStores_eq backupStores_def
          getStore_def setStore_def db_getAll_def)
qed

theorem export_import_roundtrip_witness:
  "importData (\<lambda>store. rid) (stores engine_idle)
     (exportData ''2024-01-02T00:00:00.000Z'' database_sample) = (database_sample, None)"
proof -
  have "\<forall>name\<in>set backupStores. wf_store ((\<lambda>store. rid) name) (getStore name database_sample)"
    by (simp add: backupStores_def getStore_def database_sample_def wf_store_def
        task_A_def task_C_def task_U_def)
  then show ?thesis
    by (rule export_import_roundtrip)
qed

text \<open>Validation rejects before anything is cleared.\<close>

lemma importData_rejects_unchanged:
  "data b = None \<or> \<not> truthy (version b) \<Longrightarrow> importData kp d b = (d, Some InvalidBackup)"
  by (auto simp: importData_def split: option.splits)

text \<open>
  C6. The payload has \<^verbatim>\<open>data\<close> and \<^verbatim>\<open>version\<close>, and its \<^verbatim>\<open>app\<close> is the
  name of another application. \<^verbatim>\<open>validateBackup\<close> is false on it and
  \<^verbatim>\<open>restoreData\<close> rejects it with the database unchanged; \<^verbatim>\<open>importData\<close>
  accepts it, clears the stores (task \<^verbatim>\<open>t1\<close> is gone) and inserts its records, and
  \<^verbatim>\<open>restoreFromCloud\<close> returns \<^verbatim>\<open>true\<close>.
\<close>

theorem importData_accepts_foreign_app:
  "\<not> validateBackup backup_foreign \<and>
   restoreData (\<lambda>store. rid) (stores engine_idle) backup_foreign True =
     (stores engine_idle, Some InvalidBackup) \<and>
   importData (\<lambda>store. rid) (stores engine_idle) backup_foreign =
     (\<lparr>tasks = [task_C], expenses = [], habits = [], journal = [], settings = [],
       analytics = []\<rparr>, None) \<and>
   restoreFromCloud (\<lambda>store. rid) (stores engine_idle) (Inr backup_foreign) =
     (\<lparr>tasks = [task_C], expenses = [], habits = [], journal = [], settings = [],
       analytics = []\<rparr>, True)"
  by (simp add: validateBackup_def restoreData_def restoreFromCloud_def importData_def
      truthy_def clearStores_eq backupStores_def getStore_def setStore_def db_add_def
      backup_foreign_def engine_idle_def task_C_def)

end
